theory Spec2Isabelle
  imports Main
begin

section \<open>Python values\<close>

text \<open>
  The program works on decoded JSON and builds nested dictionaries. A Python value is
  modelled by \<open>pyval\<close>. A \<open>dict\<close> is an association list in insertion order, as
  Python dictionaries iterate; its keys are pairwise different. \<open>PFloat m e\<close> stands for
  the float of mantissa \<open>m\<close> and exponent \<open>e\<close>; the program never looks inside a float.
  Strings are lists of 8-bit characters; the model is exact on ASCII text.
\<close>

datatype pyval =
    PDict "(string \<times> pyval) list"
  | PList "pyval list"
  | PBool bool
  | PInt int
  | PFloat int int
  | PStr string
  | PNone

text \<open>\<open>d[k] = v\<close>: an existing key keeps its position, a new key goes last.\<close>

primrec dict_set :: "('k \<times> 'v) list \<Rightarrow> 'k \<Rightarrow> 'v \<Rightarrow> ('k \<times> 'v) list" where
  "dict_set [] k v = [(k, v)]"
| "dict_set (p # ps) k v = (if fst p = k then (k, v) # ps else p # dict_set ps k v)"

text \<open>\<open>d.get(k)\<close> on a value that is a dictionary.\<close>

fun py_get :: "pyval \<Rightarrow> string \<Rightarrow> pyval option" where
  "py_get (PDict kvs) k = map_of kvs k"
| "py_get _ k = None"

text \<open>
  \<open>isinstance\<close> as Python decides it: \<open>bool\<close> is a subclass of \<open>int\<close>, so a boolean
  is an instance of \<open>int\<close> too.
\<close>

fun isinstance_bool :: "pyval \<Rightarrow> bool" where
  "isinstance_bool (PBool _) = True"
| "isinstance_bool _ = False"

fun isinstance_int :: "pyval \<Rightarrow> bool" where
  "isinstance_int (PInt _) = True"
| "isinstance_int (PBool _) = True"
| "isinstance_int _ = False"

fun isinstance_float :: "pyval \<Rightarrow> bool" where
  "isinstance_float (PFloat _ _) = True"
| "isinstance_float _ = False"

fun isinstance_str :: "pyval \<Rightarrow> bool" where
  "isinstance_str (PStr _) = True"
| "isinstance_str _ = False"

section \<open>Schema inference\<close>

text \<open>
  \<open>generate_schema\<close>, branch by branch in the order of the source. \<open>schema_loop\<close> is the
  \<open>for key, value in data.items()\<close> loop, carrying \<open>properties\<close> and \<open>required\<close>.
\<close>

fun generate_schema :: "pyval \<Rightarrow> pyval"
  and schema_loop :: "(string \<times> pyval) list \<Rightarrow> (string \<times> pyval) list \<Rightarrow> string list
      \<Rightarrow> (string \<times> pyval) list \<times> string list"
where
  "generate_schema (PDict items) =
     (case schema_loop items [] [] of (properties, required) \<Rightarrow>
        PDict [(''type'', PStr ''object''),
               (''properties'', PDict properties),
               (''required'', if required \<noteq> [] then PList (map PStr required) else PNone)])"
| "generate_schema (PList data) =
     (case data of
        x # _ \<Rightarrow> PDict [(''type'', PStr ''array''), (''items'', generate_schema x)]
      | [] \<Rightarrow> PDict [(''type'', PStr ''array'')])"
| "generate_schema data =
     (if isinstance_bool data then PDict [(''type'', PStr ''boolean'')]
      else if isinstance_int data then PDict [(''type'', PStr ''integer'')]
      else if isinstance_float data then PDict [(''type'', PStr ''number'')]
      else if isinstance_str data then PDict [(''type'', PStr ''string'')]
      else PDict [(''type'', PStr ''null'')])"
| "schema_loop [] properties required = (properties, required)"
| "schema_loop ((key, val) # rest) properties required =
     schema_loop rest (dict_set properties key (generate_schema val))
       (if val \<noteq> PNone then required @ [key] else required)"

text \<open>The names listed under \<open>required\<close> in a schema; none when the entry is \<open>None\<close>.\<close>

fun str_values :: "pyval list \<Rightarrow> string list" where
  "str_values [] = []"
| "str_values (PStr s # vs) = s # str_values vs"
| "str_values (_ # vs) = str_values vs"

definition required_names :: "pyval \<Rightarrow> string list" where
  "required_names schema =
     (case py_get schema ''required'' of Some (PList names) \<Rightarrow> str_values names | _ \<Rightarrow> [])"

section \<open>Strings\<close>

text \<open>\<open>s.split(sep)\<close> for a separator of one character; the result is never empty.\<close>

fun str_split :: "char \<Rightarrow> string \<Rightarrow> string list" where
  "str_split sep [] = [[]]"
| "str_split sep (c # cs) =
     (if c = sep then [] # str_split sep cs
      else (case str_split sep cs of w # ws \<Rightarrow> (c # w) # ws | [] \<Rightarrow> [[c]]))"

text \<open>\<open>sep.join(parts)\<close>.\<close>

fun str_join :: "string \<Rightarrow> string list \<Rightarrow> string" where
  "str_join sep [] = []"
| "str_join sep [p] = p"
| "str_join sep (p # q # ps) = p @ sep @ str_join sep (q # ps)"

text \<open>\<open>s.startswith(prefix)\<close>.\<close>

definition startswith :: "string \<Rightarrow> string \<Rightarrow> bool" where
  "startswith s pre = (take (length pre) s = pre)"

text \<open>\<open>str(n)\<close> for a natural number and for an integer.\<close>

definition digit_char :: "nat \<Rightarrow> char" where
  "digit_char d = ''0123456789'' ! d"

fun str_nat :: "nat \<Rightarrow> string" where
  "str_nat n = (if n < 10 then [digit_char n] else str_nat (n div 10) @ [digit_char (n mod 10)])"

declare str_nat.simps [simp del]

definition str_int :: "int \<Rightarrow> string" where
  "str_int i = (if i < 0 then CHR ''-'' # str_nat (nat (- i)) else str_nat (nat i))"

text \<open>\<open>s.lower()\<close> and \<open>s.upper()\<close> on ASCII text.\<close>

definition ascii_upper_letters :: string where
  "ascii_upper_letters = ''ABCDEFGHIJKLMNOPQRSTUVWXYZ''"

definition ascii_lower_letters :: string where
  "ascii_lower_letters = ''abcdefghijklmnopqrstuvwxyz''"

definition lower :: "string \<Rightarrow> string" where
  "lower s = map (\<lambda>c. case map_of (zip ascii_upper_letters ascii_lower_letters) c of
                         Some l \<Rightarrow> l | None \<Rightarrow> c) s"

definition upper :: "string \<Rightarrow> string" where
  "upper s = map (\<lambda>c. case map_of (zip ascii_lower_letters ascii_upper_letters) c of
                         Some u \<Rightarrow> u | None \<Rightarrow> c) s"

text \<open>\<open>s.replace(a, b)\<close> for single characters.\<close>

definition replace_char :: "char \<Rightarrow> char \<Rightarrow> string \<Rightarrow> string" where
  "replace_char a b s = map (\<lambda>c. if c = a then b else c) s"

section \<open>Library functions\<close>

text \<open>
  \<open>json.loads\<close>, \<open>urlparse\<close> and \<open>parse_qs\<close> belong to Python's standard library, not to
  the program. They are parameters of the model. \<open>json_loads\<close> returns \<open>None\<close> where
  \<open>json.loads\<close> raises; \<open>urlparse\<close> gives the three fields the program reads;
  \<open>parse_qs\<close> gives the query dictionary in key order.
\<close>

record parsed_url =
  url_scheme :: string
  url_path :: string
  url_query :: string

record pylib =
  json_loads :: "string \<Rightarrow> pyval option"
  urlparse :: "string \<Rightarrow> parsed_url"
  parse_qs :: "string \<Rightarrow> (string \<times> string list) list"

text \<open>
  \<open>extract_schema_from_json\<close>: the bare \<open>except\<close> turns every failure of the parse
  into the empty dictionary.
\<close>

definition extract_schema_from_json :: "pylib \<Rightarrow> string \<Rightarrow> pyval" where
  "extract_schema_from_json L json_str =
     (case json_loads L json_str of
        Some data \<Rightarrow> generate_schema data
      | None \<Rightarrow> PDict [])"

section \<open>Path normalisation\<close>

text \<open>
  The four regular expressions of \<open>standardize_path\<close>. Each is anchored by \<open>^\<close> and
  \<open>$\<close>, and Python's \<open>$\<close> also matches just before a newline that ends the string; no
  character class of the four contains a newline. So \<open>re.match\<close> succeeds when the
  body matches the whole segment, or the segment less one final newline.
\<close>

definition anchored :: "(string \<Rightarrow> bool) \<Rightarrow> string \<Rightarrow> bool" where
  "anchored body s = (body s \<or> (s \<noteq> [] \<and> last s = CHR 0x0A \<and> body (butlast s)))"

definition is_digit :: "char \<Rightarrow> bool" where
  "is_digit c = (c \<in> set ''0123456789'')"

definition is_hex :: "char \<Rightarrow> bool" where
  "is_hex c = (c \<in> set ''abcdef0123456789'')"

definition is_token_char :: "char \<Rightarrow> bool" where
  "is_token_char c =
     (c \<in> set ''abcdefghijklmnopqrstuvwxyzABCDEFGHIJKLMNOPQRSTUVWXYZ0123456789_-'')"

text \<open>\<^verbatim>\<open>^\d+$\<close>\<close>

definition matches_id :: "string \<Rightarrow> bool" where
  "matches_id = anchored (\<lambda>s. s \<noteq> [] \<and> list_all is_digit s)"

text \<open>\<^verbatim>\<open>^[a-f0-9]{8}-[a-f0-9]{4}-[a-f0-9]{4}-[a-f0-9]{4}-[a-f0-9]{12}$\<close>: five groups of
  hexadecimal characters of these lengths, with a hyphen between them.\<close>

definition matches_uuid :: "string \<Rightarrow> bool" where
  "matches_uuid = anchored (\<lambda>s.
     (let groups = str_split (CHR ''-'') s
      in map length groups = [8, 4, 4, 4, 12] \<and> list_all (list_all is_hex) groups))"

text \<open>\<^verbatim>\<open>^[a-f0-9]{32}$\<close>\<close>

definition matches_hash :: "string \<Rightarrow> bool" where
  "matches_hash = anchored (\<lambda>s. length s = 32 \<and> list_all is_hex s)"

text \<open>\<^verbatim>\<open>^[a-zA-Z0-9_-]{20,}$\<close>\<close>

definition matches_token :: "string \<Rightarrow> bool" where
  "matches_token = anchored (\<lambda>s. 20 \<le> length s \<and> list_all is_token_char s)"

definition patterns :: "((string \<Rightarrow> bool) \<times> string) list" where
  "patterns = [(matches_id, ''id''), (matches_uuid, ''uuid''),
               (matches_hash, ''hash''), (matches_token, ''token'')]"

text \<open>The inner loop over \<open>patterns\<close>: the kind of the first pattern that matches.\<close>

fun first_match :: "((string \<Rightarrow> bool) \<times> string) list \<Rightarrow> string \<Rightarrow> string option" where
  "first_match [] segment = None"
| "first_match ((pattern, param_type) # rest) segment =
     (if pattern segment then Some param_type else first_match rest segment)"

text \<open>\<^verbatim>\<open>f"{param_type}_{i}" if i > 0 else param_type\<close>\<close>

definition param_name :: "string \<Rightarrow> nat \<Rightarrow> string" where
  "param_name param_type i = (if 0 < i then param_type @ ''_'' @ str_nat i else param_type)"

text \<open>
  The loop \<open>for i, segment in enumerate(segments)\<close>: at step \<open>i\<close> it reads
  \<open>segments[i]\<close>, and on a match overwrites it and records the literal in
  \<open>param_mapping\<close>.
\<close>

function standardize_loop ::
  "nat \<Rightarrow> string list \<Rightarrow> (string \<times> string) list \<Rightarrow> string list \<times> (string \<times> string) list"
where
  "standardize_loop i segments param_mapping =
     (if i < length segments then
        (let segment = segments ! i in
         if segment = [] then standardize_loop (Suc i) segments param_mapping
         else (case first_match patterns segment of
                 None \<Rightarrow> standardize_loop (Suc i) segments param_mapping
               | Some param_type \<Rightarrow>
                   standardize_loop (Suc i)
                     (segments[i := ''{'' @ param_name param_type i @ ''}''])
                     (dict_set param_mapping segment (param_name param_type i))))
      else (segments, param_mapping))"
  by pat_completeness auto
termination
  by (relation "measure (\<lambda>(i, segments, param_mapping). length segments - i)") auto

declare standardize_loop.simps [simp del]

definition standardize_path :: "string \<Rightarrow> string \<times> (string \<times> string) list" where
  "standardize_path path =
     (case standardize_loop 0 (str_split (CHR ''/'') path) [] of
        (segments, param_mapping) \<Rightarrow> (str_join ''/'' segments, param_mapping))"

text \<open>
  What one step of the loop does to the segment it reads and to the mapping; the
  lemmas below describe the result of the whole loop with these two.
\<close>

definition rewrite_segment :: "nat \<Rightarrow> string \<Rightarrow> string" where
  "rewrite_segment i segment =
     (case first_match patterns segment of
        None \<Rightarrow> segment
      | Some param_type \<Rightarrow> ''{'' @ param_name param_type i @ ''}'')"

definition record_segment :: "(string \<times> string) list \<Rightarrow> nat \<times> string \<Rightarrow> (string \<times> string) list" where
  "record_segment param_mapping item =
     (case first_match patterns (snd item) of
        None \<Rightarrow> param_mapping
      | Some param_type \<Rightarrow> dict_set param_mapping (snd item) (param_name param_type (fst item)))"

section \<open>Traffic entries\<close>

text \<open>
  A HAR entry, with the fields the program reads at the types the HAR format gives
  them; a field that may be missing is an option, and a missing \<open>request\<close>, \<open>response\<close>,
  \<open>postData\<close> or \<open>content\<close> reads as the empty dictionary.
\<close>

record post_data =
  postData_mimeType :: "string option"
  postData_text :: "string option"

record request =
  req_method :: "string option"
  req_url :: "string option"
  req_postData :: "post_data option"

record content =
  content_mimeType :: "string option"
  content_text :: "string option"

record response =
  resp_status :: "int option"
  resp_statusText :: "string option"
  resp_content :: "content option"

record entry =
  entry_request :: "request option"
  entry_response :: "response option"

definition get_request :: "entry \<Rightarrow> request" where
  "get_request e = (case entry_request e of Some r \<Rightarrow> r
     | None \<Rightarrow> \<lparr>req_method = None, req_url = None, req_postData = None\<rparr>)"

definition get_response :: "entry \<Rightarrow> response" where
  "get_response e = (case entry_response e of Some r \<Rightarrow> r
     | None \<Rightarrow> \<lparr>resp_status = None, resp_statusText = None, resp_content = None\<rparr>)"

text \<open>\<^verbatim>\<open>request.get('postData', {}).get('text', '{}')\<close>\<close>

definition request_body :: "request \<Rightarrow> string" where
  "request_body request =
     (case req_postData request of
        None \<Rightarrow> ''{}''
      | Some pd \<Rightarrow> (case postData_text pd of None \<Rightarrow> ''{}'' | Some t \<Rightarrow> t))"

text \<open>\<^verbatim>\<open>response.get('content', {}).get('text', '{}')\<close>\<close>

definition response_body :: "response \<Rightarrow> string" where
  "response_body response =
     (case resp_content response of
        None \<Rightarrow> ''{}''
      | Some c \<Rightarrow> (case content_text c of None \<Rightarrow> ''{}'' | Some t \<Rightarrow> t))"

text \<open>\<^verbatim>\<open>response.get('status', 200)\<close>\<close>

definition response_status :: "response \<Rightarrow> int" where
  "response_status response = (case resp_status response of None \<Rightarrow> 200 | Some s \<Rightarrow> s)"

section \<open>Endpoint description\<close>

text \<open>The parts of \<open>generate_endpoint_description\<close>, in the order of the source.\<close>

definition resource_of :: "string \<Rightarrow> string" where
  "resource_of path =
     (let path_parts = filter (\<lambda>p. p \<noteq> []) (str_split (CHR ''/'') path)
      in if path_parts \<noteq> [] then last path_parts else ''resource'')"

definition method_desc :: "string \<Rightarrow> string" where
  "method_desc method =
     (case map_of [(''get'', ''Retrieve''), (''post'', ''Create''), (''put'', ''Update''),
                   (''patch'', ''Partially update''), (''delete'', ''Delete'')] (lower method) of
        Some d \<Rightarrow> d
      | None \<Rightarrow> ''Process'')"

definition field_desc :: "pylib \<Rightarrow> request \<Rightarrow> string" where
  "field_desc L request =
     (case json_loads L (request_body request) of
        None \<Rightarrow> []
      | Some request_data \<Rightarrow>
          (case request_data of
             PDict items \<Rightarrow>
               (let fields = map fst items
                in if fields \<noteq> [] then '' with fields: '' @ str_join '', '' fields else [])
           | _ \<Rightarrow> []))"

definition response_desc :: "pylib \<Rightarrow> string \<Rightarrow> response \<Rightarrow> string" where
  "response_desc L resource response =
     (case json_loads L (response_body response) of
        None \<Rightarrow> []
      | Some response_data \<Rightarrow>
          (case response_data of
             PDict items \<Rightarrow>
               (let response_fields = map fst items
                in if response_fields \<noteq> []
                   then '' Returns data with fields: '' @ str_join '', '' response_fields
                   else [])
           | PList _ \<Rightarrow> '' Returns a list of '' @ resource @ ''s''
           | _ \<Rightarrow> []))"

definition status_desc :: "int \<Rightarrow> string" where
  "status_desc status =
     (if 200 \<le> status \<and> status < 300 then '' (Success: '' @ str_int status @ '')''
      else if 400 \<le> status then '' (Error: '' @ str_int status @ '')''
      else [])"

definition generate_endpoint_description ::
  "pylib \<Rightarrow> string \<Rightarrow> string \<Rightarrow> request \<Rightarrow> response \<Rightarrow> string" where
  "generate_endpoint_description L path method request response =
     (let resource = resource_of path;
          status = response_status response;
          description = method_desc method @ '' '' @ resource;
          description =
            (if field_desc L request \<noteq> [] then description @ field_desc L request
             else description);
          description =
            (if response_desc L resource response \<noteq> []
             then description @ response_desc L resource response
             else description)
      in description @ status_desc status)"

section \<open>Assembling the document\<close>

text \<open>\<^verbatim>\<open>urlparse(request.get('url', ''))\<close>\<close>

definition entry_url :: "entry \<Rightarrow> string" where
  "entry_url e = (case req_url (get_request e) of None \<Rightarrow> [] | Some u \<Rightarrow> u)"

definition entry_parsed_url :: "pylib \<Rightarrow> entry \<Rightarrow> parsed_url" where
  "entry_parsed_url L e = urlparse L (entry_url e)"

text \<open>The two \<open>continue\<close> tests at the head of the loop body.\<close>

definition skipped :: "pylib \<Rightarrow> string option \<Rightarrow> entry \<Rightarrow> bool" where
  "skipped L path_prefix e =
     (let parsed_url = entry_parsed_url L e;
          original_path = url_path parsed_url
      in if \<not> startswith (url_scheme parsed_url) ''http'' then True
         else (case path_prefix of
                 None \<Rightarrow> False
               | Some pre \<Rightarrow> pre \<noteq> [] \<and> \<not> startswith original_path pre))"

text \<open>\<open>standardize_path(original_path)\<close> and the lower-cased method of an entry.\<close>

definition entry_standardized :: "pylib \<Rightarrow> entry \<Rightarrow> string \<times> (string \<times> string) list" where
  "entry_standardized L e =
     standardize_path (url_path (entry_parsed_url L e))"

definition entry_method :: "entry \<Rightarrow> string" where
  "entry_method e = lower (case req_method (get_request e) of None \<Rightarrow> ''GET'' | Some m \<Rightarrow> m)"

text \<open>The entries appended to \<open>operation['parameters']\<close>.\<close>

definition query_parameter :: "string \<Rightarrow> pyval" where
  "query_parameter name =
     PDict [(''name'', PStr name), (''in'', PStr ''query''), (''required'', PBool True),
            (''description'', PStr (''Query parameter: '' @ name)),
            (''schema'', PDict [(''type'', PStr ''string'')])]"

definition path_parameter :: "string \<times> string \<Rightarrow> pyval" where
  "path_parameter item =
     (case item of (original_value, name) \<Rightarrow>
        PDict [(''name'', PStr name), (''in'', PStr ''path''), (''required'', PBool True),
               (''description'',
                  PStr (''Path parameter: '' @ name @ '' (e.g., '' @ original_value @ '')'')),
               (''schema'', PDict [(''type'', PStr ''string'')])])"

text \<open>A dictionary is true when it has a key; \<open>postData\<close> has the two keys of the record.\<close>

definition postData_truthy :: "request \<Rightarrow> bool" where
  "postData_truthy request =
     (case req_postData request of
        None \<Rightarrow> False
      | Some pd \<Rightarrow> \<not> (postData_mimeType pd = None \<and> postData_text pd = None))"

text \<open>The operation the loop body builds from one entry.\<close>

definition entry_operation :: "pylib \<Rightarrow> entry \<Rightarrow> pyval" where
  "entry_operation L e =
     (let request = get_request e;
          response = get_response e;
          parsed_url = entry_parsed_url L e;
          (path, param_mapping) = entry_standardized L e;
          method = entry_method e;
          description = generate_endpoint_description L path method request response;
          operation =
            [(''summary'', PStr (upper method @ '' '' @ path)),
             (''description'', PStr description),
             (''operationId'', PStr (method @ ''_'' @ replace_char (CHR ''/'') (CHR ''_'') path)),
             (''responses'',
                PDict [(str_int (response_status response),
                  PDict [(''description'',
                            PStr (case resp_statusText response of None \<Rightarrow> [] | Some t \<Rightarrow> t)),
                         (''content'',
                            PDict [(''application/json'',
                              PDict [(''schema'',
                                extract_schema_from_json L (response_body response))])])])])];
          operation =
            (if postData_truthy request then
               dict_set operation ''requestBody''
                 (PDict [(''description'',
                            PStr ''Request body containing the data to be processed''),
                         (''content'',
                            PDict [(''application/json'',
                              PDict [(''schema'',
                                extract_schema_from_json L (request_body request))])])])
             else operation);
          query_params = parse_qs L (url_query parsed_url);
          parameters =
            (if query_params \<noteq> [] then Some (map query_parameter (map fst query_params))
             else None);
          parameters =
            (if param_mapping \<noteq> [] then
               Some ((case parameters of None \<Rightarrow> [] | Some ps \<Rightarrow> ps)
                       @ map path_parameter param_mapping)
             else parameters)
      in PDict (case parameters of
                  None \<Rightarrow> operation
                | Some ps \<Rightarrow> dict_set operation ''parameters'' (PList ps)))"

text \<open>
  One pass of the loop body over \<open>openapi_spec['paths']\<close>, a dictionary from path
  template to a dictionary from method to operation.
\<close>

type_synonym paths = "(string \<times> (string \<times> pyval) list) list"

definition process_entry :: "pylib \<Rightarrow> string option \<Rightarrow> paths \<Rightarrow> entry \<Rightarrow> paths" where
  "process_entry L path_prefix paths e =
     (if skipped L path_prefix e then paths
      else
        (let path = fst (entry_standardized L e);
             method = entry_method e;
             paths = (if path \<in> fst ` set paths then paths else dict_set paths path []);
             operation = entry_operation L e
         in dict_set paths path
              (dict_set (case map_of paths path of Some ops \<Rightarrow> ops | None \<Rightarrow> []) method operation)))"

record openapi_spec =
  spec_openapi :: string
  spec_info :: pyval
  spec_paths :: paths
  spec_components :: pyval
  spec_security :: pyval

text \<open>
  \<open>convert_har_to_openapi\<close> on the decoded log: \<open>entries\<close> is
  \<^verbatim>\<open>har_data.get('log', {}).get('entries', [])\<close>.
\<close>

definition convert_har_to_openapi :: "pylib \<Rightarrow> entry list \<Rightarrow> string option \<Rightarrow> openapi_spec" where
  "convert_har_to_openapi L entries path_prefix =
     \<lparr>spec_openapi = ''3.0.0'',
      spec_info = PDict
        [(''title'', PStr ''API Specification''),
         (''version'', PStr ''1.0.0''),
         (''description'', PStr (''Generated from HAR file'' @
            (case path_prefix of
               None \<Rightarrow> []
             | Some pre \<Rightarrow>
                 if pre \<noteq> [] then '' (filtered by path prefix: '' @ pre @ '')'' else [])))],
      spec_paths = foldl (process_entry L path_prefix) [] entries,
      spec_components = PDict
        [(''schemas'', PDict []),
         (''securitySchemes'',
            PDict [(''cookieAuth'',
              PDict [(''type'', PStr ''apiKey''), (''in'', PStr ''cookie''),
                     (''name'', PStr ''session'')])])],
      spec_security = PList [PDict [(''cookieAuth'', PList [])]]\<rparr>"

text \<open>\<open>operation['parameters']\<close>, empty when the operation has no such key.\<close>

definition operation_parameters :: "pyval \<Rightarrow> pyval list" where
  "operation_parameters operation =
     (case py_get operation ''parameters'' of Some (PList ps) \<Rightarrow> ps | _ \<Rightarrow> [])"

text \<open>\<open>openapi_spec['paths'][path][method]\<close>, when both keys are there.\<close>

definition lookup_operation :: "paths \<Rightarrow> string \<Rightarrow> string \<Rightarrow> pyval option" where
  "lookup_operation paths path method =
     (case map_of paths path of None \<Rightarrow> None | Some ops \<Rightarrow> map_of ops method)"

text \<open>
  No key twice: each path template occurs once in \<open>paths\<close>, and each method once under
  a path template.
\<close>

definition unique_keys :: "paths \<Rightarrow> bool" where
  "unique_keys paths =
     (distinct (map fst paths) \<and> list_all (\<lambda>item. distinct (map fst (snd item))) paths)"

section \<open>Example traffic\<close>

text \<open>
  The examples below need the library at some strings. \<open>example_lib\<close> holds the values
  Python's \<open>json.loads\<close>, \<open>urlparse\<close> and \<open>parse_qs\<close> give there; every other text is
  unparseable, every other URL has no scheme, every other query is empty.
  \<open>example_object_text\<close> is the text \<^verbatim>\<open>{"id": 42, "name": "x"}\<close>.
\<close>

definition quoted :: "string \<Rightarrow> string" where
  "quoted s = CHR 0x22 # s @ [CHR 0x22]"

definition example_object_text :: string where
  "example_object_text =
     ''{'' @ quoted ''id'' @ '': 42, '' @ quoted ''name'' @ '': '' @ quoted ''x'' @ ''}''"

definition example_lib :: pylib where
  "example_lib =
     \<lparr>json_loads = map_of
        [(''{}'', PDict []),
         (''[]'', PList []),
         (''[1, 2]'', PList [PInt 1, PInt 2]),
         (example_object_text, PDict [(''id'', PInt 42), (''name'', PStr ''x'')])],
      urlparse = (\<lambda>u.
        case map_of
          [(''https://api.example.com/users/1'',
              \<lparr>url_scheme = ''https'', url_path = ''/users/1'', url_query = []\<rparr>),
           (''https://api.example.com/users/2'',
              \<lparr>url_scheme = ''https'', url_path = ''/users/2'', url_query = []\<rparr>),
           (''https://api.example.com/items'',
              \<lparr>url_scheme = ''https'', url_path = ''/items'', url_query = []\<rparr>),
           (''httpx://example.com/a'',
              \<lparr>url_scheme = ''httpx'', url_path = ''/a'', url_query = []\<rparr>),
           (''ftp://example.com/a'',
              \<lparr>url_scheme = ''ftp'', url_path = ''/a'', url_query = []\<rparr>)] u of
          Some parsed \<Rightarrow> parsed
        | None \<Rightarrow> \<lparr>url_scheme = [], url_path = u, url_query = []\<rparr>),
      parse_qs = (\<lambda>q. [])\<rparr>"

text \<open>An entry with a method, a URL, status 200 and a response body.\<close>

definition example_entry :: "string \<Rightarrow> string \<Rightarrow> string \<Rightarrow> entry" where
  "example_entry method url body =
     \<lparr>entry_request = Some \<lparr>req_method = Some method, req_url = Some url, req_postData = None\<rparr>,
      entry_response = Some
        \<lparr>resp_status = Some 200, resp_statusText = Some ''OK'',
         resp_content = Some
           \<lparr>content_mimeType = Some ''application/json'', content_text = Some body\<rparr>\<rparr>\<rparr>"

section \<open>Facts about dictionaries\<close>

lemma dict_set_fresh: "k \<notin> fst ` set d \<Longrightarrow> dict_set d k v = d @ [(k, v)]"
  by (induction d) auto

lemma dict_set_keys:
  "map fst (dict_set d k v) = (if k \<in> fst ` set d then map fst d else map fst d @ [k])"
  by (induction d) auto

lemma dict_set_distinct: "distinct (map fst d) \<Longrightarrow> distinct (map fst (dict_set d k v))"
  by (simp add: dict_set_keys)

lemma map_of_dict_set: "map_of (dict_set d k v) = (map_of d)(k \<mapsto> v)"
  by (induction d) (auto simp: fun_eq_iff)

lemma str_values_map_PStr: "str_values (map PStr ns) = ns"
  by (induction ns) auto

section \<open>Object schemas\<close>

lemma schema_loop_distinct:
  "distinct (map fst items) \<Longrightarrow> fst ` set props \<inter> fst ` set items = {} \<Longrightarrow>
   schema_loop items props req =
     (props @ map (\<lambda>(k, v). (k, generate_schema v)) items,
      req @ map fst (filter (\<lambda>(k, v). v \<noteq> PNone) items))"
proof (induction items arbitrary: props req)
  case Nil
  then show ?case by simp
next
  case (Cons kv items)
  obtain k v where kv: "kv = (k, v)" by (cases kv)
  from Cons.prems kv have fresh: "k \<notin> fst ` set props" by auto
  have disj: "fst ` set (props @ [(k, generate_schema v)]) \<inter> fst ` set items = {}"
    using Cons.prems kv by auto
  have dist: "distinct (map fst items)" using Cons.prems by simp
  show ?case
    using Cons.IH [OF dist disj] by (simp add: kv dict_set_fresh [OF fresh])
qed

text \<open>
  C4: for a JSON object, the schema is an object schema whose properties are the
  schemas of the values, key by key, and a property name is listed as required exactly
  when its example value is not null. When no value is non-null the \<open>required\<close> entry
  is \<open>None\<close> and lists nothing. For \<open>{"a": 1, "b": null}\<close> the properties are an integer
  schema for \<open>a\<close> and a null schema for \<open>b\<close>, and required is \<open>["a"]\<close>.
\<close>

theorem generate_schema_object_required:
  assumes "distinct (map fst items)"
  shows "generate_schema (PDict items) =
           PDict [(''type'', PStr ''object''),
                  (''properties'', PDict (map (\<lambda>(k, v). (k, generate_schema v)) items)),
                  (''required'',
                     if \<exists>kv \<in> set items. snd kv \<noteq> PNone
                     then PList (map PStr (map fst (filter (\<lambda>(k, v). v \<noteq> PNone) items)))
                     else PNone)]
         \<and> (\<forall>k. k \<in> set (required_names (generate_schema (PDict items)))
                \<longleftrightarrow> (\<exists>v. map_of items k = Some v \<and> v \<noteq> PNone))
         \<and> generate_schema (PDict [(''a'', PInt 1), (''b'', PNone)]) =
           PDict [(''type'', PStr ''object''),
                  (''properties'', PDict [(''a'', PDict [(''type'', PStr ''integer'')]),
                                          (''b'', PDict [(''type'', PStr ''null'')])]),
                  (''required'', PList [PStr ''a''])]"
proof -
  let ?req = "map fst (filter (\<lambda>(k, v). v \<noteq> PNone) items)"
  have loop: "schema_loop items [] [] = (map (\<lambda>(k, v). (k, generate_schema v)) items, ?req)"
    using schema_loop_distinct [OF assms, of "[]" "[]"] by simp
  have nonempty: "?req \<noteq> [] \<longleftrightarrow> (\<exists>kv \<in> set items. snd kv \<noteq> PNone)"
    by (force simp: filter_empty_conv)
  have shape: "generate_schema (PDict items) =
           PDict [(''type'', PStr ''object''),
                  (''properties'', PDict (map (\<lambda>(k, v). (k, generate_schema v)) items)),
                  (''required'',
                     if \<exists>kv \<in> set items. snd kv \<noteq> PNone then PList (map PStr ?req) else PNone)]"
    using nonempty by (simp add: loop)
  have names: "required_names (generate_schema (PDict items)) = ?req"
  proof (cases "\<exists>kv \<in> set items. snd kv \<noteq> PNone")
    case True
    then show ?thesis
      unfolding shape required_names_def by (simp add: str_values_map_PStr del: map_map)
  next
    case False
    then have "?req = []" using nonempty by blast
    with False show ?thesis
      unfolding shape required_names_def by simp
  qed
  have member: "k \<in> set ?req \<longleftrightarrow> (\<exists>v. map_of items k = Some v \<and> v \<noteq> PNone)" for k
  proof
    assume "k \<in> set ?req"
    then obtain v where "(k, v) \<in> set items" "v \<noteq> PNone" by auto
    with assms show "\<exists>v. map_of items k = Some v \<and> v \<noteq> PNone" by auto
  next
    assume "\<exists>v. map_of items k = Some v \<and> v \<noteq> PNone"
    then obtain v where "map_of items k = Some v" "v \<noteq> PNone" by blast
    then have "(k, v) \<in> set items" by (simp add: map_of_SomeD)
    with \<open>v \<noteq> PNone\<close> show "k \<in> set ?req" by force
  qed
  have example: "generate_schema (PDict [(''a'', PInt 1), (''b'', PNone)]) =
           PDict [(''type'', PStr ''object''),
                  (''properties'', PDict [(''a'', PDict [(''type'', PStr ''integer'')]),
                                          (''b'', PDict [(''type'', PStr ''null'')])]),
                  (''required'', PList [PStr ''a''])]"
    by simp
  show ?thesis
    using shape names member example by simp
qed

theorem generate_schema_object_required_witness:
  "distinct (map fst [(''id'', PInt 7), (''note'', PNone), (''name'', PStr ''x'')])
   \<and> required_names (generate_schema
         (PDict [(''id'', PInt 7), (''note'', PNone), (''name'', PStr ''x'')]))
       = [''id'', ''name'']
   \<and> (''note'' \<in> set (required_names (generate_schema
         (PDict [(''id'', PInt 7), (''note'', PNone), (''name'', PStr ''x'')])))) = False"
proof -
  have d: "distinct (map fst [(''id'', PInt 7), (''note'', PNone), (''name'', PStr ''x'')])"
    by simp
  show ?thesis
    using generate_schema_object_required [OF d] by (simp add: required_names_def)
qed

section \<open>Array and scalar schemas\<close>

text \<open>
  C5: for a non-empty JSON array the schema is an array schema whose \<open>items\<close> is the
  schema of the first element, whatever the later elements are; for the empty array
  it is an array schema that has no \<open>items\<close> key; for \<open>[1,2,3]\<close> the items schema is
  the integer schema.
\<close>

theorem generate_schema_array_first_element:
  "generate_schema (PList (x # xs)) =
     PDict [(''type'', PStr ''array''), (''items'', generate_schema x)]
   \<and> generate_schema (PList (x # xs)) = generate_schema (PList (x # ys))
   \<and> generate_schema (PList []) = PDict [(''type'', PStr ''array'')]
   \<and> py_get (generate_schema (PList [])) ''items'' = None
   \<and> py_get (generate_schema (PList [PInt 1, PInt 2, PInt 3])) ''items''
       = Some (PDict [(''type'', PStr ''integer'')])
   \<and> generate_schema (PList [PInt 1, PStr ''two'', PNone]) =
       PDict [(''type'', PStr ''array''), (''items'', PDict [(''type'', PStr ''integer'')])]"
  by simp

text \<open>
  C6: a JSON boolean gets the boolean schema, never the integer or number schema,
  although a Python boolean is an instance of \<open>int\<close>: the boolean test comes first.
\<close>

theorem generate_schema_boolean_before_integer:
  "isinstance_int (PBool b)
   \<and> generate_schema (PBool b) = PDict [(''type'', PStr ''boolean'')]
   \<and> generate_schema (PBool b) \<noteq> PDict [(''type'', PStr ''integer'')]
   \<and> generate_schema (PBool b) \<noteq> PDict [(''type'', PStr ''number'')]"
  by simp

section \<open>Splitting and joining\<close>

lemma str_split_nonempty: "str_split sep s \<noteq> []"
  by (induction s) (auto split: list.splits)

lemma str_split_no_sep: "w \<in> set (str_split sep s) \<Longrightarrow> sep \<notin> set w"
proof (induction s arbitrary: w)
  case Nil
  then show ?case by simp
next
  case (Cons c cs)
  show ?case
  proof (cases "c = sep")
    case True
    with Cons show ?thesis by auto
  next
    case False
    obtain v vs where sp: "str_split sep cs = v # vs"
      using str_split_nonempty [of sep cs] by (cases "str_split sep cs") auto
    with Cons False show ?thesis by auto
  qed
qed

lemma str_split_append_sep:
  "sep \<notin> set w \<Longrightarrow> str_split sep (w @ sep # s) = w # str_split sep s"
  by (induction w) auto

lemma str_split_plain: "sep \<notin> set w \<Longrightarrow> str_split sep w = [w]"
  by (induction w) auto

lemma str_split_join:
  "ws \<noteq> [] \<Longrightarrow> (\<And>w. w \<in> set ws \<Longrightarrow> sep \<notin> set w) \<Longrightarrow>
   str_split sep (str_join [sep] ws) = ws"
proof (induction ws)
  case Nil
  then show ?case by simp
next
  case (Cons p ps)
  show ?case
  proof (cases ps)
    case Nil
    with Cons.prems show ?thesis by (simp add: str_split_plain)
  next
    case (Cons q qs)
    with Cons.prems Cons.IH show ?thesis by (simp add: str_split_append_sep)
  qed
qed

lemma rewrite_segment_None: "first_match patterns s = None \<Longrightarrow> rewrite_segment j s = s"
  by (simp add: rewrite_segment_def)

lemma rewrite_segment_Some:
  "first_match patterns s = Some k \<Longrightarrow> rewrite_segment j s = ''{'' @ param_name k j @ ''}''"
  by (simp add: rewrite_segment_def)

lemma record_segment_None: "first_match patterns s = None \<Longrightarrow> record_segment m (j, s) = m"
  by (simp add: record_segment_def)

lemma record_segment_Some:
  "first_match patterns s = Some k \<Longrightarrow> record_segment m (j, s) = dict_set m s (param_name k j)"
  by (simp add: record_segment_def)

section \<open>The normalisation loop\<close>

lemma first_match_empty: "first_match patterns [] = None"
  by (simp add: patterns_def matches_id_def matches_uuid_def matches_hash_def
      matches_token_def anchored_def)

lemma first_match_kinds:
  "first_match patterns s = Some k \<Longrightarrow> k \<in> {''id'', ''uuid'', ''hash'', ''token''}"
  by (auto simp: patterns_def split: if_splits)

lemma loop_result:
  "i \<le> length segments \<Longrightarrow>
   standardize_loop i segments m =
     (take i segments @ map (\<lambda>(j, s). rewrite_segment j s) (enumerate i (drop i segments)),
      foldl record_segment m (enumerate i (drop i segments)))"
proof (induction i segments m rule: standardize_loop.induct)
  case (1 i segments m)
  show ?case
  proof (cases "i < length segments")
    case False
    with "1.prems" show ?thesis by (simp add: standardize_loop.simps)
  next
    case True
    then have dr: "drop i segments = segments ! i # drop (Suc i) segments"
      by (simp add: Cons_nth_drop_Suc)
    have tk: "take (Suc i) segments = take i segments @ [segments ! i]"
      using True by (simp add: take_Suc_conv_app_nth)
    show ?thesis
    proof (cases "segments ! i = []")
      case e: True
      have "standardize_loop i segments m = standardize_loop (Suc i) segments m"
        using True e by (subst standardize_loop.simps) simp
      also have "\<dots> = (take (Suc i) segments @ map (\<lambda>(j, s). rewrite_segment j s) (enumerate (Suc i) (drop (Suc i) segments)),
      foldl record_segment m (enumerate (Suc i) (drop (Suc i) segments)))"
        using "1.IH"(1) [OF True refl e] True by simp
      finally show ?thesis
        using e by (simp add: dr tk rewrite_segment_None record_segment_None first_match_empty)
    next
      case ne: False
      show ?thesis
      proof (cases "first_match patterns (segments ! i)")
        case None
        have "standardize_loop i segments m = standardize_loop (Suc i) segments m"
          using True ne None by (subst standardize_loop.simps) simp
        also have "\<dots> = (take (Suc i) segments @ map (\<lambda>(j, s). rewrite_segment j s) (enumerate (Suc i) (drop (Suc i) segments)),
      foldl record_segment m (enumerate (Suc i) (drop (Suc i) segments)))"
          using "1.IH"(2) [OF True refl ne None] True by simp
        finally show ?thesis
          using None by (simp add: dr tk rewrite_segment_None record_segment_None)
      next
        case (Some k)
        let ?segs = "segments[i := ''{'' @ param_name k i @ ''}'']"
        let ?m = "dict_set m (segments ! i) (param_name k i)"
        have "standardize_loop i segments m = standardize_loop (Suc i) ?segs ?m"
          using True ne Some by (subst standardize_loop.simps) simp
        also have "\<dots> = (take (Suc i) ?segs @ map (\<lambda>(j, s). rewrite_segment j s) (enumerate (Suc i) (drop (Suc i) ?segs)),
      foldl record_segment ?m (enumerate (Suc i) (drop (Suc i) ?segs)))"
          using "1.IH"(3) [OF True refl ne Some] True by simp
        finally show ?thesis
          using Some True by (simp add: dr rewrite_segment_Some record_segment_Some take_Suc_conv_app_nth)
      qed
    qed
  qed
qed


section \<open>Placeholder names\<close>

lemma digit_char_in_digits: "d < 10 \<Longrightarrow> digit_char d \<in> set ''0123456789''"
  unfolding digit_char_def by (rule nth_mem) simp

lemma str_nat_digits: "set (str_nat n) \<subseteq> set ''0123456789''"
proof (induction n rule: str_nat.induct)
  case (1 n)
  show ?case
  proof (cases "n < 10")
    case True
    then show ?thesis
      using digit_char_in_digits [of n] by (subst str_nat.simps) simp
  next
    case False
    then show ?thesis
      using "1.IH" digit_char_in_digits [of "n mod 10"] by (subst str_nat.simps) simp
  qed
qed

lemma str_nat_nonempty: "str_nat n \<noteq> []"
  by (subst str_nat.simps) simp

lemma digit_char_inj: "d < 10 \<Longrightarrow> e < 10 \<Longrightarrow> digit_char d = digit_char e \<Longrightarrow> d = e"
  unfolding digit_char_def
  by (subst (asm) nth_eq_iff_index_eq) simp_all

lemma str_nat_inj: "str_nat a = str_nat b \<Longrightarrow> a = b"
proof (induction a arbitrary: b rule: str_nat.induct)
  case (1 a)
  show ?case
  proof (cases "a < 10")
    case a: True
    show ?thesis
    proof (cases "b < 10")
      case True
      with a "1.prems" show ?thesis
        by (simp add: str_nat.simps [of a] str_nat.simps [of b] digit_char_inj)
    next
      case False
      with a "1.prems" str_nat_nonempty [of "b div 10"] show ?thesis
        by (simp add: str_nat.simps [of a] str_nat.simps [of b])
    qed
  next
    case a: False
    show ?thesis
    proof (cases "b < 10")
      case True
      with a "1.prems" str_nat_nonempty [of "a div 10"] show ?thesis
        by (simp add: str_nat.simps [of a] str_nat.simps [of b])
    next
      case False
      with a "1.prems" have eq: "str_nat (a div 10) = str_nat (b div 10)"
        and d: "digit_char (a mod 10) = digit_char (b mod 10)"
        by (simp_all add: str_nat.simps [of a] str_nat.simps [of b])
      have "a div 10 = b div 10" using "1.IH" [OF a eq] .
      moreover have "a mod 10 = b mod 10" using d by (simp add: digit_char_inj)
      ultimately show ?thesis by (metis div_mult_mod_eq)
    qed
  qed
qed

lemma param_name_inj:
  assumes "k \<in> {''id'', ''uuid'', ''hash'', ''token''}"
    and "k' \<in> {''id'', ''uuid'', ''hash'', ''token''}"
    and "param_name k i = param_name k' j"
  shows "i = j"
proof -
  have under: "CHR ''_'' \<notin> set k" "CHR ''_'' \<notin> set k'" using assms by auto
  show ?thesis
  proof (cases "0 < i")
    case i: True
    show ?thesis
    proof (cases "0 < j")
      case True
      with i assms have "str_nat i = str_nat j" by (auto simp: param_name_def)
      then show ?thesis by (rule str_nat_inj)
    next
      case False
      with i assms(3) have "k' = k @ ''_'' @ str_nat i" by (simp add: param_name_def)
      with under show ?thesis by auto
    qed
  next
    case i: False
    show ?thesis
    proof (cases "0 < j")
      case True
      with i assms(3) have "k = k' @ ''_'' @ str_nat j" by (simp add: param_name_def)
      with under show ?thesis by auto
    next
      case False
      with i show ?thesis by simp
    qed
  qed
qed

lemma placeholder_no_slash:
  assumes "first_match patterns s = Some k"
  shows "CHR ''/'' \<notin> set (''{'' @ param_name k j @ ''}'')"
proof -
  have "CHR ''/'' \<notin> set (str_nat j)" using str_nat_digits [of j] by auto
  moreover have "CHR ''/'' \<notin> set k" using first_match_kinds [OF assms] by auto
  ultimately show ?thesis by (simp add: param_name_def)
qed

lemma str_split_head:
  "c \<noteq> sep \<Longrightarrow> \<exists>w ws. str_split sep (c # cs) = (c # w) # ws"
  using str_split_nonempty [of sep cs] by (cases "str_split sep cs") auto

lemma butlast_Cons_cases: "butlast (c # x) = [] \<or> (\<exists>y. butlast (c # x) = c # y)"
  by (cases x) auto

lemma matches_id_brace: "\<not> matches_id (CHR ''{'' # x)"
  using butlast_Cons_cases [of "CHR ''{''" x]
  by (auto simp: matches_id_def anchored_def is_digit_def)

lemma matches_hash_brace: "\<not> matches_hash (CHR ''{'' # x)"
  using butlast_Cons_cases [of "CHR ''{''" x]
  by (auto simp: matches_hash_def anchored_def is_hex_def)

lemma matches_token_brace: "\<not> matches_token (CHR ''{'' # x)"
  using butlast_Cons_cases [of "CHR ''{''" x]
  by (auto simp: matches_token_def anchored_def is_token_char_def)

lemma uuid_body_brace:
  "\<not> (let groups = str_split (CHR ''-'') (CHR ''{'' # y)
       in map length groups = [8, 4, 4, 4, 12] \<and> list_all (list_all is_hex) groups)"
proof -
  obtain w ws where "str_split (CHR ''-'') (CHR ''{'' # y) = (CHR ''{'' # w) # ws"
    using str_split_head [of "CHR ''{''" "CHR ''-''" y] by auto
  then show ?thesis by (simp add: is_hex_def)
qed

lemma matches_uuid_brace: "\<not> matches_uuid (CHR ''{'' # x)"
proof -
  have "butlast (CHR ''{'' # x) = [] \<or> (\<exists>y. butlast (CHR ''{'' # x) = CHR ''{'' # y)"
    by (rule butlast_Cons_cases)
  then show ?thesis
    using uuid_body_brace unfolding matches_uuid_def anchored_def
    by (auto simp del: str_split.simps simp add: Let_def)
qed

lemma first_match_brace: "first_match patterns (CHR ''{'' # x) = None"
  by (simp add: patterns_def matches_id_brace matches_uuid_brace matches_hash_brace
      matches_token_brace)

lemma first_match_rewrite_segment: "first_match patterns (rewrite_segment j s) = None"
  by (cases "first_match patterns s")
     (simp_all add: rewrite_segment_None rewrite_segment_Some first_match_brace)

lemma rewrite_segment_no_slash:
  "CHR ''/'' \<notin> set s \<Longrightarrow> CHR ''/'' \<notin> set (rewrite_segment j s)"
  using placeholder_no_slash [of s _ j]
  by (cases "first_match patterns s") (simp_all add: rewrite_segment_None rewrite_segment_Some)

section \<open>Templates\<close>

lemma enumerate_snd_mem: "(j, s) \<in> set (enumerate n xs) \<Longrightarrow> s \<in> set xs"
  by (auto simp: in_set_enumerate_eq)

lemma standardize_path_result:
  "standardize_path path =
     (str_join ''/'' (map (\<lambda>(j, s). rewrite_segment j s) (enumerate 0 (str_split (CHR ''/'') path))),
      foldl record_segment [] (enumerate 0 (str_split (CHR ''/'') path)))"
  by (simp add: standardize_path_def loop_result)

lemma template_segments:
  "str_split (CHR ''/'') (fst (standardize_path path)) =
     map (\<lambda>(j, s). rewrite_segment j s) (enumerate 0 (str_split (CHR ''/'') path))"
proof -
  let ?ws = "map (\<lambda>(j, s). rewrite_segment j s) (enumerate 0 (str_split (CHR ''/'') path))"
  have ne: "?ws \<noteq> []"
    using str_split_nonempty [of "CHR ''/''" path] by (cases "str_split (CHR ''/'') path") simp_all
  have ns: "CHR ''/'' \<notin> set w" if "w \<in> set ?ws" for w
  proof -
    from that obtain j s where "w = rewrite_segment j s" "(j, s) \<in> set (enumerate 0 (str_split (CHR ''/'') path))"
      by auto
    then have "s \<in> set (str_split (CHR ''/'') path)" by (simp add: enumerate_snd_mem)
    with \<open>w = rewrite_segment j s\<close> show ?thesis
      using str_split_no_sep rewrite_segment_no_slash by blast
  qed
  show ?thesis
    using str_split_join [OF ne ns] by (simp add: standardize_path_result)
qed

lemma foldl_record_segment_unmatched:
  "\<forall>p \<in> set js. first_match patterns (snd p) = None \<Longrightarrow> foldl record_segment m js = m"
proof (induction js arbitrary: m)
  case Nil
  then show ?case by simp
next
  case (Cons x js)
  then have "record_segment m x = m" by (simp add: record_segment_def)
  with Cons show ?case by simp
qed

text \<open>
  C7: normalising a template again changes nothing. For every path \<open>p\<close>, the template
  of \<open>p\<close> is its own template, and the second pass replaces no segment, so its
  mapping is empty.
\<close>

theorem standardize_path_idempotent:
  "standardize_path (fst (standardize_path p)) = (fst (standardize_path p), [])"
proof -
  let ?ws = "map (\<lambda>(j, s). rewrite_segment j s) (enumerate 0 (str_split (CHR ''/'') p))"
  have none: "\<forall>q \<in> set (enumerate 0 ?ws). first_match patterns (snd q) = None"
  proof
    fix q assume q: "q \<in> set (enumerate 0 ?ws)"
    have "snd q \<in> set ?ws"
      using q enumerate_snd_mem [of "fst q" "snd q" 0 ?ws] by simp
    then show "first_match patterns (snd q) = None"
      by (auto simp: first_match_rewrite_segment)
  qed
  have same: "map (\<lambda>(j, s). rewrite_segment j s) (enumerate 0 ?ws) = ?ws"
  proof -
    have "map (\<lambda>(j, s). rewrite_segment j s) (enumerate 0 ?ws) = map snd (enumerate 0 ?ws)"
      using none by (intro map_cong) (auto simp: rewrite_segment_None)
    then show ?thesis by simp
  qed
  have unchanged: "foldl record_segment [] (enumerate 0 ?ws) = []"
    using none by (rule foldl_record_segment_unmatched)
  have "standardize_path (fst (standardize_path p)) =
      (str_join ''/'' (map (\<lambda>(j, s). rewrite_segment j s) (enumerate 0 ?ws)),
       foldl record_segment [] (enumerate 0 ?ws))"
    by (subst standardize_path_result) (simp only: template_segments)
  also have "\<dots> = (str_join ''/'' ?ws, [])"
    by (simp only: same unchanged)
  finally show ?thesis by (simp add: standardize_path_result)
qed

section \<open>The literal-to-placeholder mapping\<close>

lemma in_dict_set:
  "distinct (map fst d) \<Longrightarrow> (l, n) \<in> set (dict_set d k v) \<longleftrightarrow> (l = k \<and> n = v) \<or> (l \<noteq> k \<and> (l, n) \<in> set d)"
proof -
  assume d: "distinct (map fst d)"
  then have d': "distinct (map fst (dict_set d k v))" by (rule dict_set_distinct)
  have "(l, n) \<in> set (dict_set d k v) \<longleftrightarrow> map_of (dict_set d k v) l = Some n"
    using d' by simp
  also have "\<dots> \<longleftrightarrow> (l = k \<and> n = v) \<or> (l \<noteq> k \<and> map_of d l = Some n)"
    by (auto simp: map_of_dict_set)
  finally show ?thesis using d by simp
qed

lemma foldl_record_segment_distinct:
  "distinct (map fst m) \<Longrightarrow> distinct (map fst (foldl record_segment m js))"
proof (induction js arbitrary: m)
  case Nil
  then show ?case by simp
next
  case (Cons x js)
  have "distinct (map fst (record_segment m x))"
    using Cons.prems by (simp add: record_segment_def dict_set_distinct split: option.splits)
  then show ?case using Cons.IH by simp
qed

lemma recorded_entry_origin:
  assumes "distinct (map fst m)"
    and "(l, n) \<in> set (foldl record_segment m (enumerate i ss))"
  shows "(l, n) \<in> set m \<or>
         (\<exists>pre post k. ss = pre @ l # post \<and> l \<notin> set post \<and>
            first_match patterns l = Some k \<and> n = param_name k (i + length pre))"
  using assms(2)
proof (induction ss arbitrary: l n rule: rev_induct)
  case Nil
  then show ?case by simp
next
  case (snoc s ss)
  let ?M = "foldl record_segment m (enumerate i ss)"
  have dM: "distinct (map fst ?M)" using assms(1) by (rule foldl_record_segment_distinct)
  have step: "foldl record_segment m (enumerate i (ss @ [s])) = record_segment ?M (i + length ss, s)"
    by (simp add: enumerate_append_eq)
  show ?case
  proof (cases "first_match patterns s")
    case None
    with snoc.prems step have "(l, n) \<in> set ?M" by (simp add: record_segment_None)
    from snoc.IH [OF this] show ?thesis
    proof
      assume "(l, n) \<in> set m" then show ?thesis ..
    next
      assume "\<exists>pre post k. ss = pre @ l # post \<and> l \<notin> set post \<and>
            first_match patterns l = Some k \<and> n = param_name k (i + length pre)"
      then obtain pre post k where *: "ss = pre @ l # post" "l \<notin> set post"
        "first_match patterns l = Some k" "n = param_name k (i + length pre)" by blast
      with None have "l \<noteq> s" by auto
      with * have "ss @ [s] = pre @ l # (post @ [s]) \<and> l \<notin> set (post @ [s]) \<and>
            first_match patterns l = Some k \<and> n = param_name k (i + length pre)" by simp
      then show ?thesis by blast
    qed
  next
    case (Some k)
    with snoc.prems step
    have "(l, n) \<in> set (dict_set ?M s (param_name k (i + length ss)))"
      by (simp add: record_segment_Some)
    then have "(l = s \<and> n = param_name k (i + length ss)) \<or> (l \<noteq> s \<and> (l, n) \<in> set ?M)"
      by (simp add: in_dict_set [OF dM])
    then show ?thesis
    proof
      assume "l = s \<and> n = param_name k (i + length ss)"
      with Some have "ss @ [s] = ss @ l # [] \<and> l \<notin> set [] \<and>
            first_match patterns l = Some k \<and> n = param_name k (i + length ss)" by simp
      then show ?thesis by blast
    next
      assume a: "l \<noteq> s \<and> (l, n) \<in> set ?M"
      then have "(l, n) \<in> set ?M" ..
      from snoc.IH [OF this] show ?thesis
      proof
        assume "(l, n) \<in> set m" then show ?thesis ..
      next
        assume "\<exists>pre post k. ss = pre @ l # post \<and> l \<notin> set post \<and>
            first_match patterns l = Some k \<and> n = param_name k (i + length pre)"
        then obtain pre post k' where *: "ss = pre @ l # post" "l \<notin> set post"
          "first_match patterns l = Some k'" "n = param_name k' (i + length pre)" by blast
        with a have "ss @ [s] = pre @ l # (post @ [s]) \<and> l \<notin> set (post @ [s]) \<and>
            first_match patterns l = Some k' \<and> n = param_name k' (i + length pre)" by simp
        then show ?thesis by blast
      qed
    qed
  qed
qed

lemma foldl_record_segment_other:
  "l \<notin> set ss \<Longrightarrow> map_of (foldl record_segment m (enumerate i ss)) l = map_of m l"
proof (induction ss arbitrary: m i)
  case Nil
  then show ?case by simp
next
  case (Cons s ss)
  have "map_of (record_segment m (i, s)) l = map_of m l"
    using Cons.prems by (simp add: record_segment_def map_of_dict_set split: option.splits)
  with Cons show ?case by simp
qed

lemma recorded_last_occurrence:
  assumes "first_match patterns l = Some k" and "l \<notin> set post"
  shows "map_of (foldl record_segment m (enumerate i (pre @ l # post))) l
         = Some (param_name k (i + length pre))"
proof -
  let ?M = "foldl record_segment m (enumerate i pre)"
  have "foldl record_segment m (enumerate i (pre @ l # post)) =
        foldl record_segment (dict_set ?M l (param_name k (i + length pre)))
          (enumerate (Suc (i + length pre)) post)"
    using assms(1) by (simp add: enumerate_append_eq record_segment_Some)
  then show ?thesis
    using assms(2) by (simp add: foldl_record_segment_other map_of_dict_set)
qed

lemma filter_key_single:
  "distinct (map fst m) \<Longrightarrow> map_of m l = Some v \<Longrightarrow> filter (\<lambda>item. fst item = l) m = [(l, v)]"
proof (induction m)
  case Nil
  then show ?case by simp
next
  case (Cons x m)
  show ?case
  proof (cases "fst x = l")
    case True
    with Cons.prems have "x = (l, v)" by (cases x) simp
    moreover have "l \<notin> fst ` set m" using Cons.prems(1) True by auto
    then have "\<forall>item \<in> set m. fst item \<noteq> l" by force
    then have "filter (\<lambda>item. fst item = l) m = []" by (simp add: filter_empty_conv)
    ultimately show ?thesis by simp
  next
    case False
    with Cons show ?thesis by (cases x) auto
  qed
qed

lemma template_segment_nth:
  "i < length (str_split (CHR ''/'') path) \<Longrightarrow>
   str_split (CHR ''/'') (fst (standardize_path path)) ! i
     = rewrite_segment i (str_split (CHR ''/'') path ! i)"
  by (simp add: template_segments nth_enumerate_eq)


section \<open>Parameters of an operation\<close>

lemma operation_parameters_entry:
  "operation_parameters (entry_operation L e) =
     map query_parameter (map fst (parse_qs L (url_query (entry_parsed_url L e))))
     @ map path_parameter (snd (entry_standardized L e))"
  by (cases "entry_standardized L e")
     (simp add: entry_operation_def operation_parameters_def Let_def map_of_dict_set)

lemma path_parameter_fields:
  "py_get (path_parameter item) ''in'' = Some (PStr ''path'')"
  "py_get (path_parameter item) ''name'' = Some (PStr (snd item))"
  by (cases item; simp add: path_parameter_def)+

lemma query_parameter_fields:
  "py_get (query_parameter name) ''in'' = Some (PStr ''query'')"
  by (simp add: query_parameter_def)

text \<open>
  C10: when a literal that matches a pattern occurs in two segments of a path, each
  occurrence becomes its own placeholder, named after its position, and the two names
  differ; the mapping has one entry for the literal, with the name given at the last
  occurrence; the name given at the earlier occurrence is no value of the mapping, and
  so names no path parameter of the operation built for an entry with that path.
\<close>

theorem standardize_path_repeated_literal:
  assumes "str_split (CHR ''/'') path = a @ lit # b @ lit # c"
    and "lit \<notin> set c"
    and "first_match patterns lit = Some kind"
  shows "str_split (CHR ''/'') (fst (standardize_path path)) ! length a
           = ''{'' @ param_name kind (length a) @ ''}''
       \<and> str_split (CHR ''/'') (fst (standardize_path path)) ! Suc (length a + length b)
           = ''{'' @ param_name kind (Suc (length a + length b)) @ ''}''
       \<and> param_name kind (length a) \<noteq> param_name kind (Suc (length a + length b))
       \<and> filter (\<lambda>item. fst item = lit) (snd (standardize_path path))
           = [(lit, param_name kind (Suc (length a + length b)))]
       \<and> param_name kind (length a) \<notin> snd ` set (snd (standardize_path path))
       \<and> (\<forall>L e. url_path (entry_parsed_url L e) = path \<longrightarrow>
            (\<forall>p \<in> set (operation_parameters (entry_operation L e)).
               py_get p ''in'' = Some (PStr ''path'') \<longrightarrow>
               py_get p ''name'' \<noteq> Some (PStr (param_name kind (length a)))))"
proof -
  let ?segs = "str_split (CHR ''/'') path"
  let ?i = "length a" and ?j = "Suc (length a + length b)"
  let ?m = "snd (standardize_path path)"
  have kind: "kind \<in> {''id'', ''uuid'', ''hash'', ''token''}"
    using assms(3) by (rule first_match_kinds)
  have i: "?i < length ?segs" "?segs ! ?i = lit" by (simp_all add: assms(1))
  have j: "?j < length ?segs" by (simp add: assms(1))
  have "?segs ! ?j = ((a @ [lit] @ b) @ lit # c) ! length (a @ [lit] @ b)"
    by (simp add: assms(1))
  then have j': "?segs ! ?j = lit" by (simp only: nth_append_length)
  have first: "str_split (CHR ''/'') (fst (standardize_path path)) ! ?i
           = ''{'' @ param_name kind ?i @ ''}''"
    using template_segment_nth [OF i(1)] i(2) assms(3) by (simp add: rewrite_segment_Some)
  have second: "str_split (CHR ''/'') (fst (standardize_path path)) ! ?j
           = ''{'' @ param_name kind ?j @ ''}''"
    using template_segment_nth [OF j] j' assms(3) by (simp add: rewrite_segment_Some)
  have differ: "param_name kind ?i \<noteq> param_name kind ?j"
    using param_name_inj [OF kind kind, of ?i ?j] by auto
  have m: "?m = foldl record_segment [] (enumerate 0 ?segs)"
    by (simp add: standardize_path_result)
  have dist: "distinct (map fst ?m)"
    unfolding m by (rule foldl_record_segment_distinct) simp
  have "map_of ?m lit = Some (param_name kind (0 + length (a @ lit # b)))"
    unfolding m using recorded_last_occurrence [OF assms(3) assms(2), of "[]" 0 "a @ lit # b"]
    by (simp add: assms(1))
  then have look: "map_of ?m lit = Some (param_name kind ?j)" by simp
  have single: "filter (\<lambda>item. fst item = lit) ?m = [(lit, param_name kind ?j)]"
    using dist look by (rule filter_key_single)
  have absent: "param_name kind ?i \<notin> snd ` set ?m"
  proof
    assume "param_name kind ?i \<in> snd ` set ?m"
    then obtain l where "(l, param_name kind ?i) \<in> set ?m" by force
    then have "(l, param_name kind ?i) \<in> set (foldl record_segment [] (enumerate 0 ?segs))"
      by (simp only: m)
    from recorded_entry_origin [OF _ this]
    obtain pre post k where *: "?segs = pre @ l # post" "l \<notin> set post"
      "first_match patterns l = Some k" "param_name kind ?i = param_name k (0 + length pre)"
      by auto
    have "k \<in> {''id'', ''uuid'', ''hash'', ''token''}" using *(3) by (rule first_match_kinds)
    from param_name_inj [OF kind this *(4)] have len: "length a = length pre" by simp
    from *(1) assms(1) have "a @ lit # b @ lit # c = pre @ l # post" by simp
    with len have "l = lit" "post = b @ lit # c" by auto
    with *(2) show False by simp
  qed
  have params: "\<forall>L e. url_path (entry_parsed_url L e) = path \<longrightarrow>
            (\<forall>p \<in> set (operation_parameters (entry_operation L e)).
               py_get p ''in'' = Some (PStr ''path'') \<longrightarrow>
               py_get p ''name'' \<noteq> Some (PStr (param_name kind ?i)))"
  proof (intro allI impI ballI)
    fix L e p
    assume path: "url_path (entry_parsed_url L e) = path"
      and p: "p \<in> set (operation_parameters (entry_operation L e))"
      and inpath: "py_get p ''in'' = Some (PStr ''path'')"
    have std: "entry_standardized L e = standardize_path path"
      by (simp add: entry_standardized_def path)
    from p have "p \<in> query_parameter ` fst ` set (parse_qs L (url_query (entry_parsed_url L e)))
        \<or> p \<in> path_parameter ` set ?m"
      by (auto simp: operation_parameters_entry std)
    then show "py_get p ''name'' \<noteq> Some (PStr (param_name kind ?i))"
    proof
      assume "p \<in> query_parameter ` fst ` set (parse_qs L (url_query (entry_parsed_url L e)))"
      with inpath show ?thesis by (auto simp: query_parameter_fields)
    next
      assume "p \<in> path_parameter ` set ?m"
      then obtain item where item: "item \<in> set ?m" "p = path_parameter item" by blast
      then have "snd item \<in> snd ` set ?m" by simp
      with absent have "snd item \<noteq> param_name kind ?i" by metis
      with item(2) show ?thesis by (simp add: path_parameter_fields)
    qed
  qed
  show ?thesis
    using first second differ single absent params by blast
qed

theorem standardize_path_repeated_literal_witness:
  "str_split (CHR ''/'') ''/5/things/5'' = [[]] @ ''5'' # [''things''] @ ''5'' # []
   \<and> first_match patterns ''5'' = Some ''id''
   \<and> str_split (CHR ''/'') (fst (standardize_path ''/5/things/5'')) ! 1 = ''{id_1}''
   \<and> str_split (CHR ''/'') (fst (standardize_path ''/5/things/5'')) ! 3 = ''{id_3}''
   \<and> filter (\<lambda>item. fst item = ''5'') (snd (standardize_path ''/5/things/5''))
       = [(''5'', ''id_3'')]
   \<and> ''id_1'' \<notin> snd ` set (snd (standardize_path ''/5/things/5''))"
proof -
  have h1: "str_split (CHR ''/'') ''/5/things/5'' = [[]] @ ''5'' # [''things''] @ ''5'' # []"
    by simp
  have h2: "''5'' \<notin> set ([] :: string list)" by simp
  have h3: "first_match patterns ''5'' = Some ''id''"
    by (simp add: patterns_def matches_id_def anchored_def is_digit_def)
  have n1: "param_name ''id'' (length [[] :: string]) = ''id_1''"
    by (simp add: param_name_def str_nat.simps digit_char_def)
  have n3: "param_name ''id'' (Suc (length [[] :: string] + length [''things''])) = ''id_3''"
    by (simp add: param_name_def str_nat.simps digit_char_def)
  show ?thesis
    using standardize_path_repeated_literal [OF h1 h2 h3] h1 h3 n1 n3
    by (simp add: numeral_3_eq_3)
qed

text \<open>
  C1 (as the code has it): in the template of a path, every parameterized segment
  that comes after another parameterized segment is named \<open>{kind}_{i}\<close>, where \<open>i\<close> is
  its 0-based position in the split on \<open>/\<close>, the leading empty element counted. For
  \<open>/users/1000140/orders/3f29c4a1b2e3445e9aa1d2c3b4e5f6a7\<close> the split has five
  elements, \<open>users\<close> and \<open>orders\<close> stay, the hash is at position 4 and becomes
  \<open>{hash_4}\<close>, and the mapping sends the hash to \<open>hash_4\<close>.
\<close>

theorem standardize_path_later_segments_indexed:
  assumes "j < i" and "i < length (str_split (CHR ''/'') path)"
    and "first_match patterns (str_split (CHR ''/'') path ! j) = Some kind_j"
    and "first_match patterns (str_split (CHR ''/'') path ! i) = Some kind"
  shows "str_split (CHR ''/'') (fst (standardize_path path)) ! i
           = ''{'' @ kind @ ''_'' @ str_nat i @ ''}''
       \<and> length (str_split (CHR ''/'')
            (fst (standardize_path ''/users/1000140/orders/3f29c4a1b2e3445e9aa1d2c3b4e5f6a7''))) = 5
       \<and> str_split (CHR ''/'')
            (fst (standardize_path ''/users/1000140/orders/3f29c4a1b2e3445e9aa1d2c3b4e5f6a7'')) ! 1
           = ''users''
       \<and> str_split (CHR ''/'')
            (fst (standardize_path ''/users/1000140/orders/3f29c4a1b2e3445e9aa1d2c3b4e5f6a7'')) ! 3
           = ''orders''
       \<and> str_split (CHR ''/'')
            (fst (standardize_path ''/users/1000140/orders/3f29c4a1b2e3445e9aa1d2c3b4e5f6a7'')) ! 4
           = ''{hash_4}''
       \<and> map_of (snd (standardize_path ''/users/1000140/orders/3f29c4a1b2e3445e9aa1d2c3b4e5f6a7''))
            ''3f29c4a1b2e3445e9aa1d2c3b4e5f6a7'' = Some ''hash_4''"
proof -
  from assms(1) have pos: "0 < i" by simp
  have general: "str_split (CHR ''/'') (fst (standardize_path path)) ! i
           = ''{'' @ kind @ ''_'' @ str_nat i @ ''}''"
    using template_segment_nth [OF assms(2)] assms(4) pos
    by (simp add: rewrite_segment_Some param_name_def)
  have ex: "standardize_path ''/users/1000140/orders/3f29c4a1b2e3445e9aa1d2c3b4e5f6a7''
      = (''/users/{id_2}/orders/{hash_4}'',
         [(''1000140'', ''id_2''), (''3f29c4a1b2e3445e9aa1d2c3b4e5f6a7'', ''hash_4'')])"
    by code_simp
  show ?thesis
    unfolding ex using general by simp
qed

theorem standardize_path_later_segments_indexed_witness:
  "(2::nat) < 4
   \<and> 4 < length (str_split (CHR ''/'') ''/users/1000140/orders/3f29c4a1b2e3445e9aa1d2c3b4e5f6a7'')
   \<and> first_match patterns
        (str_split (CHR ''/'') ''/users/1000140/orders/3f29c4a1b2e3445e9aa1d2c3b4e5f6a7'' ! 2)
       = Some ''id''
   \<and> first_match patterns
        (str_split (CHR ''/'') ''/users/1000140/orders/3f29c4a1b2e3445e9aa1d2c3b4e5f6a7'' ! 4)
       = Some ''hash''
   \<and> str_split (CHR ''/'')
        (fst (standardize_path ''/users/1000140/orders/3f29c4a1b2e3445e9aa1d2c3b4e5f6a7'')) ! 4
       = ''{'' @ ''hash'' @ ''_'' @ str_nat 4 @ ''}''"
proof -
  let ?p = "''/users/1000140/orders/3f29c4a1b2e3445e9aa1d2c3b4e5f6a7''"
  have h1: "(2::nat) < 4" by simp
  have h2: "4 < length (str_split (CHR ''/'') ?p)" by simp
  have h3: "first_match patterns (str_split (CHR ''/'') ?p ! 2) = Some ''id''"
    by code_simp
  have h4: "first_match patterns (str_split (CHR ''/'') ?p ! 4) = Some ''hash''"
    by code_simp
  show ?thesis
    using standardize_path_later_segments_indexed [OF h1 h2 h3 h4] h1 h2 h3 h4 by blast
qed

theorem standardize_path_example_counterexample:
  "standardize_path ''/users/1000140/orders/3f29c4a1b2e3445e9aa1d2c3b4e5f6a7''
     = (''/users/{id_2}/orders/{hash_4}'',
        [(''1000140'', ''id_2''), (''3f29c4a1b2e3445e9aa1d2c3b4e5f6a7'', ''hash_4'')])
   \<and> standardize_path ''/users/1000140/orders/3f29c4a1b2e3445e9aa1d2c3b4e5f6a7''
     \<noteq> (''/users/{id}/orders/{hash_3}'',
        [(''1000140'', ''id''), (''3f29c4a1b2e3445e9aa1d2c3b4e5f6a7'', ''hash_3'')])"
proof -
  have ex: "standardize_path ''/users/1000140/orders/3f29c4a1b2e3445e9aa1d2c3b4e5f6a7''
      = (''/users/{id_2}/orders/{hash_4}'',
         [(''1000140'', ''id_2''), (''3f29c4a1b2e3445e9aa1d2c3b4e5f6a7'', ''hash_4'')])"
    by code_simp
  show ?thesis unfolding ex by simp
qed

section \<open>Descriptions\<close>

text \<open>
  C3: when the text of a body is not parseable, schema extraction returns the empty
  dictionary; a request with that body gets no field clause, a response with that body
  gets no return clause, and with both the description is only the verb, the resource
  and the status note. No branch of the model is an error.
\<close>

theorem unparseable_body_is_tolerated:
  assumes "json_loads L s = None"
  shows "extract_schema_from_json L s = PDict []
       \<and> (\<forall>request. request_body request = s \<longrightarrow> field_desc L request = [])
       \<and> (\<forall>resource response. response_body response = s \<longrightarrow>
             response_desc L resource response = [])
       \<and> (\<forall>path method request response.
             request_body request = s \<and> response_body response = s \<longrightarrow>
             generate_endpoint_description L path method request response
               = method_desc method @ '' '' @ resource_of path
                 @ status_desc (response_status response))"
  using assms
  by (simp add: extract_schema_from_json_def field_desc_def response_desc_def
      generate_endpoint_description_def)

theorem unparseable_body_is_tolerated_witness:
  "json_loads example_lib ''<html>'' = None
   \<and> extract_schema_from_json example_lib ''<html>'' = PDict []
   \<and> generate_endpoint_description example_lib ''/items'' ''get''
         (get_request (example_entry ''GET'' ''https://api.example.com/items'' ''<html>''))
         (get_response (example_entry ''GET'' ''https://api.example.com/items'' ''<html>''))
       = ''Retrieve items (Success: 200)''"
proof -
  have h: "json_loads example_lib ''<html>'' = None"
    by (simp add: example_lib_def example_object_text_def quoted_def)
  have r: "response_body
      (get_response (example_entry ''GET'' ''https://api.example.com/items'' ''<html>'')) = ''<html>''"
    by (simp add: response_body_def get_response_def example_entry_def)
  have d: "generate_endpoint_description example_lib ''/items'' ''get''
         (get_request (example_entry ''GET'' ''https://api.example.com/items'' ''<html>''))
         (get_response (example_entry ''GET'' ''https://api.example.com/items'' ''<html>''))
       = ''Retrieve items (Success: 200)''"
    by code_simp
  show ?thesis
    using unparseable_body_is_tolerated [OF h] h d by simp
qed

text \<open>
  C9 (as the code has it): the description gets the clause \<open>Returns a list of
  {resource}s\<close> exactly when the response body parses to a JSON array, empty or not;
  when it parses to an object with keys, the clause \<open>Returns data with fields:\<close> lists
  the keys in their order, joined by a comma and a space.
\<close>

theorem generate_endpoint_description_returns:
  "(json_loads L (response_body response) = Some (PList xs) \<longrightarrow>
      generate_endpoint_description L path method request response
        = method_desc method @ '' '' @ resource_of path @ field_desc L request
          @ '' Returns a list of '' @ resource_of path @ ''s''
          @ status_desc (response_status response))
   \<and> (json_loads L (response_body response) = Some (PDict items) \<and> items \<noteq> [] \<longrightarrow>
      generate_endpoint_description L path method request response
        = method_desc method @ '' '' @ resource_of path @ field_desc L request
          @ '' Returns data with fields: '' @ str_join '', '' (map fst items)
          @ status_desc (response_status response))
   \<and> ((response_desc L (resource_of path) response
          = '' Returns a list of '' @ resource_of path @ ''s'')
        \<longleftrightarrow> (\<exists>ys. json_loads L (response_body response) = Some (PList ys)))"
proof -
  have iff: "(response_desc L (resource_of path) response
          = '' Returns a list of '' @ resource_of path @ ''s'')
        \<longleftrightarrow> (\<exists>ys. json_loads L (response_body response) = Some (PList ys))"
    by (auto simp: response_desc_def Let_def split: option.splits pyval.splits)
  have list: "json_loads L (response_body response) = Some (PList xs) \<longrightarrow>
      generate_endpoint_description L path method request response
        = method_desc method @ '' '' @ resource_of path @ field_desc L request
          @ '' Returns a list of '' @ resource_of path @ ''s''
          @ status_desc (response_status response)"
    by (simp add: generate_endpoint_description_def response_desc_def Let_def)
  have object: "json_loads L (response_body response) = Some (PDict items) \<and> items \<noteq> [] \<longrightarrow>
      generate_endpoint_description L path method request response
        = method_desc method @ '' '' @ resource_of path @ field_desc L request
          @ '' Returns data with fields: '' @ str_join '', '' (map fst items)
          @ status_desc (response_status response)"
    by (simp add: generate_endpoint_description_def response_desc_def Let_def)
  show ?thesis
    using list object iff by blast
qed

theorem generate_endpoint_description_returns_witness:
  "json_loads example_lib ''[1, 2]'' = Some (PList [PInt 1, PInt 2])
   \<and> generate_endpoint_description example_lib ''/items'' ''get''
         (get_request (example_entry ''GET'' ''https://api.example.com/items'' ''[1, 2]''))
         (get_response (example_entry ''GET'' ''https://api.example.com/items'' ''[1, 2]''))
       = ''Retrieve items Returns a list of itemss (Success: 200)''
   \<and> json_loads example_lib example_object_text
       = Some (PDict [(''id'', PInt 42), (''name'', PStr ''x'')])
   \<and> generate_endpoint_description example_lib ''/items'' ''get''
         (get_request (example_entry ''GET'' ''https://api.example.com/items'' example_object_text))
         (get_response (example_entry ''GET'' ''https://api.example.com/items'' example_object_text))
       = ''Retrieve items Returns data with fields: id, name (Success: 200)''"
proof -
  let ?e1 = "example_entry ''GET'' ''https://api.example.com/items'' ''[1, 2]''"
  let ?e2 = "example_entry ''GET'' ''https://api.example.com/items'' example_object_text"
  have b1: "response_body (get_response ?e1) = ''[1, 2]''"
    by (simp add: response_body_def get_response_def example_entry_def)
  have b2: "response_body (get_response ?e2) = example_object_text"
    by (simp add: response_body_def get_response_def example_entry_def)
  have l1: "json_loads example_lib ''[1, 2]'' = Some (PList [PInt 1, PInt 2])"
    by (simp add: example_lib_def example_object_text_def quoted_def)
  have l2: "json_loads example_lib example_object_text
       = Some (PDict [(''id'', PInt 42), (''name'', PStr ''x'')])"
    by (simp add: example_lib_def example_object_text_def quoted_def)
  have parts: "method_desc ''get'' = ''Retrieve''" "resource_of ''/items'' = ''items''"
    "field_desc example_lib (get_request ?e1) = []"
    "field_desc example_lib (get_request ?e2) = []"
    "status_desc (response_status (get_response ?e1)) = '' (Success: 200)''"
    "status_desc (response_status (get_response ?e2)) = '' (Success: 200)''"
    by code_simp+
  from generate_endpoint_description_returns
    [of example_lib "get_response ?e1" "[PInt 1, PInt 2]" "''/items''" "''get''"
       "get_request ?e1"]
  have d1: "generate_endpoint_description example_lib ''/items'' ''get''
      (get_request ?e1) (get_response ?e1)
       = ''Retrieve items Returns a list of itemss (Success: 200)''"
    by (simp add: b1 l1 parts)
  from generate_endpoint_description_returns
    [of example_lib "get_response ?e2" _ "''/items''" "''get''" "get_request ?e2"
       "[(''id'', PInt 42), (''name'', PStr ''x'')]"]
  have d2: "generate_endpoint_description example_lib ''/items'' ''get''
      (get_request ?e2) (get_response ?e2)
       = ''Retrieve items Returns data with fields: id, name (Success: 200)''"
    by (simp add: b2 l2 parts)
  show ?thesis using l1 l2 d1 d2 by simp
qed

theorem empty_array_returns_clause_counterexample:
  "json_loads example_lib ''[]'' = Some (PList [])
   \<and> generate_endpoint_description example_lib ''/items'' ''get''
         (get_request (example_entry ''GET'' ''https://api.example.com/items'' ''[]''))
         (get_response (example_entry ''GET'' ''https://api.example.com/items'' ''[]''))
       = ''Retrieve items Returns a list of itemss (Success: 200)''"
  by code_simp

section \<open>The assembler\<close>

lemma process_entry_skipped:
  "skipped L pre e \<Longrightarrow> process_entry L pre ps e = ps"
  by (simp add: process_entry_def)

lemma lookup_operation_process_entry:
  assumes "\<not> skipped L pre e"
  shows "lookup_operation (process_entry L pre ps e) t m =
           (if t = fst (entry_standardized L e) \<and> m = entry_method e
            then Some (entry_operation L e)
            else lookup_operation ps t m)"
proof (cases "fst (entry_standardized L e) \<in> fst ` set ps")
  case True
  with assms show ?thesis
    by (auto simp: process_entry_def lookup_operation_def Let_def map_of_dict_set
        split: option.splits)
next
  case False
  then have "map_of ps (fst (entry_standardized L e)) = None"
    by (simp add: map_of_eq_None_iff)
  with assms False show ?thesis
    by (auto simp: process_entry_def lookup_operation_def Let_def map_of_dict_set
        split: option.splits)
qed

lemma list_all_dict_set:
  "list_all P d \<Longrightarrow> P (k, v) \<Longrightarrow> list_all P (dict_set d k v)"
  by (induction d) auto

lemma unique_keys_process_entry:
  assumes "unique_keys ps"
  shows "unique_keys (process_entry L pre ps e)"
proof (cases "skipped L pre e")
  case True
  with assms show ?thesis by (simp add: process_entry_skipped)
next
  case False
  let ?t = "fst (entry_standardized L e)"
  let ?ps1 = "if ?t \<in> fst ` set ps then ps else dict_set ps ?t []"
  have ok1: "unique_keys ?ps1"
    using assms by (simp add: unique_keys_def dict_set_distinct list_all_dict_set)
  have inner: "distinct (map fst (case map_of ?ps1 ?t of Some ops \<Rightarrow> ops | None \<Rightarrow> []))"
  proof (cases "map_of ?ps1 ?t")
    case None
    then show ?thesis by simp
  next
    case (Some ops)
    then have "(?t, ops) \<in> set ?ps1" by (rule map_of_SomeD)
    with ok1 have "distinct (map fst ops)"
      by (auto simp: unique_keys_def list_all_iff)
    with Some show ?thesis by simp
  qed
  have "process_entry L pre ps e =
      dict_set ?ps1 ?t
        (dict_set (case map_of ?ps1 ?t of Some ops \<Rightarrow> ops | None \<Rightarrow> [])
           (entry_method e) (entry_operation L e))"
    using False by (simp add: process_entry_def Let_def)
  then show ?thesis
    using ok1 inner
    by (simp add: unique_keys_def dict_set_distinct list_all_dict_set)
qed

lemma unique_keys_foldl:
  "unique_keys ps \<Longrightarrow> unique_keys (foldl (process_entry L pre) ps es)"
  by (induction es arbitrary: ps) (simp_all add: unique_keys_process_entry)

lemma lookup_operation_kept:
  assumes "\<forall>e' \<in> set es. skipped L pre e' \<or> fst (entry_standardized L e') \<noteq> t \<or> entry_method e' \<noteq> m"
  shows "lookup_operation (foldl (process_entry L pre) ps es) t m = lookup_operation ps t m"
  using assms
proof (induction es arbitrary: ps)
  case Nil
  then show ?case by simp
next
  case (Cons e es)
  have "lookup_operation (process_entry L pre ps e) t m = lookup_operation ps t m"
  proof (cases "skipped L pre e")
    case True
    then show ?thesis by (simp add: process_entry_skipped)
  next
    case False
    with Cons.prems show ?thesis
      by (auto simp: lookup_operation_process_entry)
  qed
  with Cons show ?case by simp
qed

lemma last_write_wins:
  assumes "\<not> skipped L pre e"
    and "\<forall>e' \<in> set es'. skipped L pre e' \<or> fst (entry_standardized L e') \<noteq> fst (entry_standardized L e)
           \<or> entry_method e' \<noteq> entry_method e"
  shows "lookup_operation (foldl (process_entry L pre) ps (es @ e # es'))
           (fst (entry_standardized L e)) (entry_method e) = Some (entry_operation L e)"
  using assms by (simp add: lookup_operation_kept lookup_operation_process_entry)

lemma two_entries_same_key:
  assumes "\<not> skipped L pre e1" and "\<not> skipped L pre e2"
    and "fst (entry_standardized L e1) = fst (entry_standardized L e2)"
    and "entry_method e1 = entry_method e2"
  shows "foldl (process_entry L pre) [] [e1, e2] =
           [(fst (entry_standardized L e2), [(entry_method e2, entry_operation L e2)])]"
  using assms by (simp add: process_entry_def Let_def)

lemma spec_paths_convert:
  "spec_paths (convert_har_to_openapi L es pre) = foldl (process_entry L pre) [] es"
  by (simp add: convert_har_to_openapi_def)

text \<open>
  C2: two entries that are not skipped, with the same path template and the same
  method, assembled in this order, leave one operation under that key: the operation
  built from the second entry, the same that the second entry alone leaves there. The
  same holds in any log where nothing after the second entry has that key. In every
  assembled document each path template and each method under it occurs once.
\<close>

theorem last_entry_wins:
  assumes "\<not> skipped L pre e1" and "\<not> skipped L pre e2"
    and "fst (entry_standardized L e1) = fst (entry_standardized L e2)"
    and "entry_method e1 = entry_method e2"
  shows "spec_paths (convert_har_to_openapi L [e1, e2] pre)
           = [(fst (entry_standardized L e2), [(entry_method e2, entry_operation L e2)])]
       \<and> spec_paths (convert_har_to_openapi L [e2] pre)
           = [(fst (entry_standardized L e2), [(entry_method e2, entry_operation L e2)])]
       \<and> (\<forall>es mid es'.
             (\<forall>e' \<in> set es'. skipped L pre e'
                \<or> fst (entry_standardized L e') \<noteq> fst (entry_standardized L e2)
                \<or> entry_method e' \<noteq> entry_method e2) \<longrightarrow>
             lookup_operation
               (spec_paths (convert_har_to_openapi L (es @ e1 # mid @ e2 # es') pre))
               (fst (entry_standardized L e2)) (entry_method e2)
             = Some (entry_operation L e2))
       \<and> (\<forall>es. unique_keys (spec_paths (convert_har_to_openapi L es pre)))"
proof -
  have pair: "spec_paths (convert_har_to_openapi L [e1, e2] pre)
           = [(fst (entry_standardized L e2), [(entry_method e2, entry_operation L e2)])]"
    unfolding spec_paths_convert using assms by (rule two_entries_same_key)
  have alone: "spec_paths (convert_har_to_openapi L [e2] pre)
           = [(fst (entry_standardized L e2), [(entry_method e2, entry_operation L e2)])]"
    using assms(2) by (simp add: spec_paths_convert process_entry_def Let_def)
  have later: "lookup_operation
               (spec_paths (convert_har_to_openapi L (es @ e1 # mid @ e2 # es') pre))
               (fst (entry_standardized L e2)) (entry_method e2)
             = Some (entry_operation L e2)"
    if "\<forall>e' \<in> set es'. skipped L pre e'
                \<or> fst (entry_standardized L e') \<noteq> fst (entry_standardized L e2)
                \<or> entry_method e' \<noteq> entry_method e2" for es mid es'
    using last_write_wins [OF assms(2) that, of "[]" "es @ e1 # mid"]
    by (simp add: spec_paths_convert)
  have unique: "unique_keys (spec_paths (convert_har_to_openapi L es pre))" for es
    unfolding spec_paths_convert by (rule unique_keys_foldl) (simp add: unique_keys_def)
  show ?thesis
    using pair alone later unique by blast
qed

theorem last_entry_wins_witness:
  "\<not> skipped example_lib None (example_entry ''GET'' ''https://api.example.com/users/1'' ''[]'')
   \<and> \<not> skipped example_lib None
         (example_entry ''get'' ''https://api.example.com/users/2'' example_object_text)
   \<and> fst (entry_standardized example_lib
         (example_entry ''GET'' ''https://api.example.com/users/1'' ''[]'')) = ''/users/{id_2}''
   \<and> fst (entry_standardized example_lib
         (example_entry ''get'' ''https://api.example.com/users/2'' example_object_text))
       = ''/users/{id_2}''
   \<and> entry_method (example_entry ''GET'' ''https://api.example.com/users/1'' ''[]'') = ''get''
   \<and> spec_paths (convert_har_to_openapi example_lib
         [example_entry ''GET'' ''https://api.example.com/users/1'' ''[]'',
          example_entry ''get'' ''https://api.example.com/users/2'' example_object_text] None)
       = [(''/users/{id_2}'',
           [(''get'', entry_operation example_lib
               (example_entry ''get'' ''https://api.example.com/users/2'' example_object_text))])]
   \<and> py_get (entry_operation example_lib
         (example_entry ''get'' ''https://api.example.com/users/2'' example_object_text))
         ''description''
       = Some (PStr ''Retrieve {id_2} Returns data with fields: id, name (Success: 200)'')"
proof -
  let ?e1 = "example_entry ''GET'' ''https://api.example.com/users/1'' ''[]''"
  let ?e2 = "example_entry ''get'' ''https://api.example.com/users/2'' example_object_text"
  have s1: "\<not> skipped example_lib None ?e1" by code_simp
  have s2: "\<not> skipped example_lib None ?e2" by code_simp
  have t1: "fst (entry_standardized example_lib ?e1) = ''/users/{id_2}''" by code_simp
  have t2: "fst (entry_standardized example_lib ?e2) = ''/users/{id_2}''" by code_simp
  have m1: "entry_method ?e1 = ''get''" by code_simp
  have m2: "entry_method ?e2 = ''get''" by code_simp
  have d: "py_get (entry_operation example_lib ?e2) ''description''
       = Some (PStr ''Retrieve {id_2} Returns data with fields: id, name (Success: 200)'')"
    by code_simp
  have same_t: "fst (entry_standardized example_lib ?e1) = fst (entry_standardized example_lib ?e2)"
    by (simp only: t1 t2)
  have same_m: "entry_method ?e1 = entry_method ?e2" by (simp only: m1 m2)
  show ?thesis
    using last_entry_wins [OF s1 s2 same_t same_m] s1 s2 t1 t2 m1 m2 d by simp
qed

lemma skipped_iff:
  "skipped L pre e \<longleftrightarrow>
     \<not> startswith (url_scheme (entry_parsed_url L e)) ''http''
     \<or> (\<exists>p. pre = Some p \<and> p \<noteq> [] \<and> \<not> startswith (url_path (entry_parsed_url L e)) p)"
  by (auto simp: skipped_def Let_def split: option.splits)

lemma skipped_entries_contribute_nothing:
  "foldl (process_entry L pre) ps es
     = foldl (process_entry L pre) ps (filter (\<lambda>e. \<not> skipped L pre e) es)"
  by (induction es arbitrary: ps) (simp_all add: process_entry_skipped)

text \<open>
  C8, at the input where the code departs from it: the scheme \<open>httpx\<close> is neither
  \<open>http\<close> nor \<open>https\<close>, yet it starts with \<open>http\<close>, so the entry is not skipped and
  its path enters the document. An \<open>ftp\<close> entry is skipped.
\<close>

theorem scheme_test_accepts_httpx:
  "url_scheme (entry_parsed_url example_lib
       (example_entry ''GET'' ''httpx://example.com/a'' ''[]'')) = ''httpx''
   \<and> \<not> skipped example_lib None (example_entry ''GET'' ''httpx://example.com/a'' ''[]'')
   \<and> map fst (spec_paths (convert_har_to_openapi example_lib
         [example_entry ''GET'' ''httpx://example.com/a'' ''[]''] None)) = [''/a'']
   \<and> skipped example_lib None (example_entry ''GET'' ''ftp://example.com/a'' ''[]'')
   \<and> spec_paths (convert_har_to_openapi example_lib
         [example_entry ''GET'' ''ftp://example.com/a'' ''[]''] None) = []"
  by code_simp

end
